theory Spec2Isabelle
  imports Complex_Main "HOL-Library.Multiset"
begin

section \<open>Non-maximum suppression in mmcv/ops/nms.py\<close>

text \<open>
  A tensor of shape (N, D) is the list of its N rows, each row a list of D numbers; a
  tensor of shape (N) is a list. Coordinates and scores are real numbers, indices are
  naturals, class ids and the integer arguments are integers. Every assert and every
  raising tensor operation of the source is a branch that returns an error value.
\<close>

datatype error =
  AssertionError | RuntimeError | IndexError | TypeError | ValueError | KeyError
  | NotImplementedError

subsection \<open>Geometry\<close>

text \<open>
  Modelled from the spec: the box-pair IoU of the kernels in mmcv/ops/pure_pytorch_nms.py,
  a module that is not among the sources. Width and height of the intersection are clamped
  at 0, areas are products of (x2 - x1 + off) and (y2 - y1 + off), and the quotient is 0
  when its denominator is not positive.
\<close>

definition iou :: "real list \<Rightarrow> real list \<Rightarrow> real \<Rightarrow> real" where
  "iou a b off =
     (let w = max 0 (min (a ! 2) (b ! 2) - max (a ! 0) (b ! 0) + off);
          h = max 0 (min (a ! 3) (b ! 3) - max (a ! 1) (b ! 1) + off);
          inter = w * h;
          area_a = (a ! 2 - a ! 0 + off) * (a ! 3 - a ! 1 + off);
          area_b = (b ! 2 - b ! 0 + off) * (b ! 3 - b ! 1 + off);
          denom = area_a + area_b - inter
      in if denom \<le> 0 then 0 else inter / denom)"

subsection \<open>The kernels\<close>

text \<open>
  \<open>scores.sort(descending=True)\<close> as an index list: a stable sort, so that equal scores
  keep their input order.
\<close>

definition argsort_desc :: "real list \<Rightarrow> nat list" where
  "argsort_desc scores = sort_key (\<lambda>i. - (scores ! i)) [0..<length scores]"

text \<open>
  Modelled from the spec: the greedy scan of the kernels in mmcv/ops/pure_pytorch_nms.py
  over the sorted order. \<open>S\<close> holds the indices marked suppressed. An unsuppressed index
  is emitted, and every later unsuppressed index that it suppresses is marked.
\<close>

fun greedy_scan :: "(nat \<Rightarrow> nat \<Rightarrow> bool) \<Rightarrow> nat list \<Rightarrow> nat list \<Rightarrow> nat list" where
  "greedy_scan sp [] S = []"
| "greedy_scan sp (i # rest) S =
     (if i \<in> set S then greedy_scan sp rest S
      else i # greedy_scan sp rest (filter (\<lambda>j. j \<notin> set S \<and> sp i j) rest @ S))"

text \<open>
  Modelled from the spec: \<open>nms_pytorch\<close> of mmcv/ops/pure_pytorch_nms.py, which is not
  among the sources. It sorts the indices by score, descending and stable, and runs the
  greedy scan, suppressing a later box when its IoU with the emitted one exceeds the
  threshold. The only call, in \<open>NMSop.forward\<close>, hands over boxes, scores and threshold:
  the kernel never sees the caller's offset, so widths and heights are x2 - x1 and
  y2 - y1, the interface's default offset 0.
\<close>

definition nms_pytorch :: "real list list \<Rightarrow> real list \<Rightarrow> real \<Rightarrow> nat list" where
  "nms_pytorch boxes scores iou_threshold =
     greedy_scan (\<lambda>i j. iou (boxes ! i) (boxes ! j) 0 > iou_threshold) (argsort_desc scores) []"

text \<open>
  Modelled from the spec: the decay weight of \<open>soft_nms_pytorch\<close> for the three methods.
\<close>

definition decay_weight :: "string \<Rightarrow> real \<Rightarrow> real \<Rightarrow> real \<Rightarrow> real" where
  "decay_weight method v iou_threshold sigma =
     (if method = ''naive'' then (if v > iou_threshold then 0 else 1)
      else if method = ''linear'' then (if v > iou_threshold then 1 - v else 1)
      else exp (- (v * v) / sigma))"

text \<open>
  Modelled from the spec: the loop of \<open>soft_nms_pytorch\<close> on a pool of (index, box,
  score): sort the pool by score, pick the first, rescale every other score by the decay
  weight of its IoU with the pick, drop what falls to \<open>min_score\<close> or below, and go on
  with the rest.
\<close>

function soft_loop ::
  "real \<Rightarrow> real \<Rightarrow> real \<Rightarrow> string \<Rightarrow> (nat \<times> real list \<times> real) list \<Rightarrow> (nat \<times> real list \<times> real) list"
where
  "soft_loop iou_threshold sigma min_score method pool =
     (case sort_key (\<lambda>(i, b, s). - s) pool of
        [] \<Rightarrow> []
      | p # rest \<Rightarrow>
          p # soft_loop iou_threshold sigma min_score method
                (filter (\<lambda>(j, c, t). t > min_score)
                   (map (\<lambda>(j, c, t).
                          (j, c, t * decay_weight method (iou (fst (snd p)) c 0) iou_threshold sigma))
                      rest)))"
  by pat_completeness auto
termination
proof (relation "measure (\<lambda>(t, g, m, k, pool). length pool)")
  show "wf (measure (\<lambda>(t, g, m, k, pool). length pool))"
    by simp
next
  fix iou_threshold sigma min_score :: real
  fix mth :: string
  fix pool rest :: "(nat \<times> real list \<times> real) list"
  fix p :: "nat \<times> real list \<times> real"
  assume srt: "sort_key (\<lambda>(i, b, s). - s) pool = p # rest"
  have "length (sort_key (\<lambda>(i, b, s). - s) pool) = length pool"
    by simp
  with srt have len: "length pool = Suc (length rest)"
    by simp
  show "((iou_threshold, sigma, min_score, mth,
        filter (\<lambda>(j, c, t). t > min_score)
          (map (\<lambda>(j, c, t).
                 (j, c, t * decay_weight mth (iou (fst (snd p)) c 0) iou_threshold sigma))
             rest)),
       (iou_threshold, sigma, min_score, mth, pool))
      \<in> measure (\<lambda>(t, g, m, k, pool). length pool)"
    by (simp add: len le_imp_less_Suc)
qed

text \<open>
  Modelled from the spec: \<open>soft_nms_pytorch\<close> of mmcv/ops/pure_pytorch_nms.py, which is
  not among the sources. An unknown method is a value error. The picks are returned
  sorted by final score, descending, as rows of box and score, with their indices.
\<close>

definition soft_nms_pytorch ::
  "real list list \<Rightarrow> real list \<Rightarrow> real \<Rightarrow> real \<Rightarrow> real \<Rightarrow> string
     \<Rightarrow> error + (real list list \<times> nat list)"
where
  "soft_nms_pytorch boxes scores iou_threshold sigma min_score method =
     (if method \<notin> {''naive'', ''linear'', ''gaussian''} then Inl ValueError
      else
        let picks = soft_loop iou_threshold sigma min_score method
                      (zip [0..<length scores] (zip boxes scores));
            out = sort_key (\<lambda>(i, b, s). - s) picks
        in Inr (map (\<lambda>(i, b, s). b @ [s]) out, map fst out))"

text \<open>
  Modelled from the spec: the grouping scan of \<open>nms_match_pytorch\<close>: as the greedy scan,
  but an index suppressed by the emitted one joins its group.
\<close>

fun match_scan :: "(nat \<Rightarrow> nat \<Rightarrow> bool) \<Rightarrow> nat list \<Rightarrow> nat list \<Rightarrow> nat list list" where
  "match_scan sp [] S = []"
| "match_scan sp (i # rest) S =
     (if i \<in> set S then match_scan sp rest S
      else (i # filter (\<lambda>j. j \<notin> set S \<and> sp i j) rest)
             # match_scan sp rest (filter (\<lambda>j. j \<notin> set S \<and> sp i j) rest @ S))"

text \<open>
  Modelled from the spec: \<open>nms_match_pytorch\<close> of mmcv/ops/pure_pytorch_nms.py, which is
  not among the sources. A row of \<open>dets\<close> is a box followed by its score.
\<close>

definition nms_match_pytorch :: "real list list \<Rightarrow> real \<Rightarrow> nat list list" where
  "nms_match_pytorch dets iou_threshold =
     match_scan (\<lambda>i j. iou (dets ! i) (dets ! j) 0 > iou_threshold)
       (argsort_desc (map (\<lambda>d. d ! 4) dets)) []"

subsection \<open>NMSop.forward and nms\<close>

text \<open>
  \<open>torch.nonzero(scores > score_threshold)\<close>: the positions of the scores above the
  threshold, in increasing order.
\<close>

definition valid_inds :: "real list \<Rightarrow> real \<Rightarrow> nat list" where
  "valid_inds scores score_threshold =
     filter (\<lambda>i. scores ! i > score_threshold) [0..<length scores]"

definition NMSop_forward ::
  "real list list \<Rightarrow> real list \<Rightarrow> real \<Rightarrow> int \<Rightarrow> real \<Rightarrow> int \<Rightarrow> nat list"
where
  "NMSop_forward bboxes scores iou_threshold offset score_threshold max_num =
     (let is_filtering_by_score = score_threshold > 0;
          bboxes1 = (if is_filtering_by_score
                     then map (\<lambda>i. bboxes ! i) (valid_inds scores score_threshold) else bboxes);
          scores1 = (if is_filtering_by_score
                     then map (\<lambda>i. scores ! i) (valid_inds scores score_threshold) else scores);
          inds = nms_pytorch bboxes1 scores1 iou_threshold;
          inds1 = (if max_num > 0 then take (nat max_num) inds else inds)
      in if is_filtering_by_score
         then map (\<lambda>k. valid_inds scores score_threshold ! k) inds1 else inds1)"

definition nms ::
  "real list list \<Rightarrow> real list \<Rightarrow> real \<Rightarrow> int \<Rightarrow> real \<Rightarrow> int \<Rightarrow> error + (real list list \<times> nat list)"
where
  "nms boxes scores iou_threshold offset score_threshold max_num =
     (if \<not> list_all (\<lambda>b. length b = 4) boxes then Inl AssertionError
      else if length boxes \<noteq> length scores then Inl AssertionError
      else if offset \<notin> {0, 1} then Inl AssertionError
      else
        let inds = NMSop_forward boxes scores iou_threshold offset score_threshold max_num;
            dets = map (\<lambda>k. boxes ! k @ [scores ! k]) inds
        in Inr (dets, inds))"

subsection \<open>SoftNMSop.forward and soft_nms\<close>

definition method_map :: "int \<Rightarrow> string option" where
  "method_map m =
     (if m = 0 then Some ''naive'' else if m = 1 then Some ''linear''
      else if m = 2 then Some ''gaussian'' else None)"

definition method_dict :: "string \<Rightarrow> int option" where
  "method_dict s =
     (if s = ''naive'' then Some 0 else if s = ''linear'' then Some 1
      else if s = ''gaussian'' then Some 2 else None)"

definition SoftNMSop_forward ::
  "real list list \<Rightarrow> real list \<Rightarrow> real \<Rightarrow> real \<Rightarrow> real \<Rightarrow> int \<Rightarrow> int
     \<Rightarrow> error + (real list list \<times> nat list)"
where
  "SoftNMSop_forward boxes scores iou_threshold sigma min_score method offset =
     (case method_map method of
        None \<Rightarrow> Inl KeyError
      | Some method_str \<Rightarrow>
          soft_nms_pytorch boxes scores iou_threshold sigma min_score method_str)"

definition soft_nms ::
  "real list list \<Rightarrow> real list \<Rightarrow> real \<Rightarrow> real \<Rightarrow> real \<Rightarrow> string \<Rightarrow> int
     \<Rightarrow> error + (real list list \<times> nat list)"
where
  "soft_nms boxes scores iou_threshold sigma min_score method offset =
     (if \<not> list_all (\<lambda>b. length b = 4) boxes then Inl AssertionError
      else if length boxes \<noteq> length scores then Inl AssertionError
      else if offset \<notin> {0, 1} then Inl AssertionError
      else
        case method_dict method of
          None \<Rightarrow> Inl AssertionError
        | Some m \<Rightarrow>
            (case SoftNMSop_forward boxes scores iou_threshold sigma min_score m offset of
               Inl e \<Rightarrow> Inl e
             | Inr (dets, inds) \<Rightarrow> Inr (take (length inds) dets, inds)))"

subsection \<open>batched_nms\<close>

text \<open>
  The keyword arguments that remain in \<open>nms_cfg\<close> once \<open>class_agnostic\<close>, \<open>type\<close> and
  \<open>split_thr\<close> are popped; an absent key is \<open>None\<close>. They are passed on to the op.
\<close>

record nms_kwargs =
  kw_iou_threshold :: "real option"
  kw_offset :: "int option"
  kw_score_threshold :: "real option"
  kw_max_num :: "int option"
  kw_sigma :: "real option"
  kw_min_score :: "real option"
  kw_method :: "string option"

type_synonym nms_op =
  "real list list \<Rightarrow> real list \<Rightarrow> nms_kwargs \<Rightarrow> error + (real list list \<times> nat list)"

text \<open>
  \<open>cfg_type\<close> is the callable that \<open>type\<close> resolves to: \<open>None\<close> when the key is absent
  (the default, the function nms), \<open>op_nms\<close>, \<open>op_soft_nms\<close> and \<open>nms_rotated\<close> for the
  names of the functions of the module, or any other callable handed in by the caller.
\<close>

record nms_cfg =
  cfg_class_agnostic :: "bool option"
  cfg_type :: "nms_op option"
  cfg_split_thr :: "int option"
  cfg_kwargs :: nms_kwargs

text \<open>Calling nms and soft_nms with keyword arguments; an unknown keyword is a type error.\<close>

definition op_nms :: nms_op where
  "op_nms boxes scores kw =
     (if kw_sigma kw \<noteq> None \<or> kw_min_score kw \<noteq> None \<or> kw_method kw \<noteq> None
      then Inl TypeError
      else case kw_iou_threshold kw of
        None \<Rightarrow> Inl TypeError
      | Some t \<Rightarrow>
          nms boxes scores t
            (case kw_offset kw of None \<Rightarrow> 0 | Some v \<Rightarrow> v)
            (case kw_score_threshold kw of None \<Rightarrow> 0 | Some v \<Rightarrow> v)
            (case kw_max_num kw of None \<Rightarrow> - 1 | Some v \<Rightarrow> v))"

definition op_soft_nms :: nms_op where
  "op_soft_nms boxes scores kw =
     (if kw_score_threshold kw \<noteq> None \<or> kw_max_num kw \<noteq> None then Inl TypeError
      else
        soft_nms boxes scores
          (case kw_iou_threshold kw of None \<Rightarrow> 3 / 10 | Some v \<Rightarrow> v)
          (case kw_sigma kw of None \<Rightarrow> 1 / 2 | Some v \<Rightarrow> v)
          (case kw_min_score kw of None \<Rightarrow> 1 / 1000 | Some v \<Rightarrow> v)
          (case kw_method kw of None \<Rightarrow> ''linear'' | Some v \<Rightarrow> v)
          (case kw_offset kw of None \<Rightarrow> 0 | Some v \<Rightarrow> v))"

text \<open>
  The stub that the module keeps under the name \<open>nms_rotated\<close>: rotated NMS has been
  removed, every call raises.
\<close>

definition nms_rotated :: nms_op where
  "nms_rotated boxes scores kw = Inl NotImplementedError"

text \<open>\<open>Tensor.max()\<close> over all entries: a runtime error on a tensor without entries.\<close>

definition tensor_max :: "real list \<Rightarrow> error + real" where
  "tensor_max xs = (case xs of [] \<Rightarrow> Inl RuntimeError | x # rest \<Rightarrow> Inr (fold max rest x))"

text \<open>
  \<open>rows + offsets[:, None]\<close> with broadcasting: row by row when the lengths agree, one
  offset for all rows, or one row for all offsets; a runtime error otherwise.
\<close>

definition add_offsets ::
  "(real list \<Rightarrow> real \<Rightarrow> real list) \<Rightarrow> real list list \<Rightarrow> real list \<Rightarrow> error + real list list"
where
  "add_offsets shift rows offsets =
     (if length offsets = length rows then Inr (map2 shift rows offsets)
      else if length offsets = 1 then Inr (map (\<lambda>b. shift b (hd offsets)) rows)
      else if length rows = 1 then Inr (map (\<lambda>off. shift (hd rows) off) offsets)
      else Inl RuntimeError)"

text \<open>
  The boxes that the op sees. For rows of five numbers (rotated boxes) the offset goes
  to the centre only and the maximal coordinate is max(x, y) + max(w, h); the shifted
  centres are concatenated with the remaining three columns, which needs as many centres
  as boxes.
\<close>

definition boxes_for_nms_of :: "real list list \<Rightarrow> int list \<Rightarrow> bool \<Rightarrow> error + real list list" where
  "boxes_for_nms_of boxes idxs class_agnostic =
     (if class_agnostic then Inr boxes
      else if boxes \<noteq> [] \<and> length (hd boxes) = 5 then
        (case tensor_max (concat (map (take 2) boxes)) of
           Inl e \<Rightarrow> Inl e
         | Inr m1 \<Rightarrow>
             (case tensor_max (concat (map (\<lambda>b. take 2 (drop 2 b)) boxes)) of
                Inl e \<Rightarrow> Inl e
              | Inr m2 \<Rightarrow>
                  let max_coordinate = m1 + m2;
                      offsets = map (\<lambda>c. of_int c * (max_coordinate + 1)) idxs
                  in case add_offsets (\<lambda>b off. map (\<lambda>x. x + off) (take 2 b)) boxes offsets of
                       Inl e \<Rightarrow> Inl e
                     | Inr boxes_ctr_for_nms \<Rightarrow>
                         if length boxes_ctr_for_nms \<noteq> length boxes then Inl RuntimeError
                         else Inr (map2 (\<lambda>ctr b. ctr @ take 3 (drop 2 b))
                                     boxes_ctr_for_nms boxes)))
      else
        (case tensor_max (concat boxes) of
           Inl e \<Rightarrow> Inl e
         | Inr max_coordinate \<Rightarrow>
             let offsets = map (\<lambda>c. of_int c * (max_coordinate + 1)) idxs
             in add_offsets (\<lambda>b off. map (\<lambda>x. x + off) b) boxes offsets))"

text \<open>The branch below the split threshold: one call of the op on all boxes.\<close>

definition batched_nms_single ::
  "nms_op \<Rightarrow> real list list \<Rightarrow> real list list \<Rightarrow> real list \<Rightarrow> nms_kwargs
     \<Rightarrow> error + (real list list \<times> nat list)"
where
  "batched_nms_single nms_op boxes boxes_for_nms scores kw =
     (case nms_op boxes_for_nms scores kw of
        Inl e \<Rightarrow> Inl e
      | Inr (dets, keep) \<Rightarrow>
          if \<not> list_all (\<lambda>k. k < length boxes) keep then Inl IndexError
          else if list_ex (\<lambda>d. d = []) dets then Inl IndexError
          else if length dets \<noteq> length keep then Inl RuntimeError
          else Inr (map2 (\<lambda>k d. boxes ! k @ [last d]) keep dets, keep))"

text \<open>\<open>(idxs == id).nonzero()\<close>: the positions of class \<open>cid\<close>, in increasing order.\<close>

definition class_mask :: "int list \<Rightarrow> int \<Rightarrow> nat list" where
  "class_mask idxs cid = filter (\<lambda>i. idxs ! i = cid) [0..<length idxs]"

text \<open>
  \<open>dets[:, -1]\<close> as the right-hand side of an assignment to \<open>n\<close> positions: the last
  entry of each row, a single row being broadcast.
\<close>

definition row_scores :: "real list list \<Rightarrow> nat \<Rightarrow> real list" where
  "row_scores dets n =
     (if length dets = n then map last dets else replicate n (last (hd dets)))"

text \<open>
  One round of the loop over the class ids: the op runs on the rows of \<open>boxes_for_nms\<close>
  and the scores at the positions of the class, and the kept positions are marked in
  \<open>total_mask\<close> and receive the score of their row in \<open>scores_after_nms\<close>.
\<close>

definition split_step ::
  "nms_op \<Rightarrow> real list list \<Rightarrow> real list \<Rightarrow> int list \<Rightarrow> nms_kwargs \<Rightarrow> int
     \<Rightarrow> bool list \<times> real list \<Rightarrow> error + (bool list \<times> real list)"
where
  "split_step nms_op boxes_for_nms scores idxs kw cid st =
     (let mask = class_mask idxs cid in
      if \<not> list_all (\<lambda>i. i < length boxes_for_nms \<and> i < length scores) mask then Inl IndexError
      else
        case nms_op (map (\<lambda>i. boxes_for_nms ! i) mask) (map (\<lambda>i. scores ! i) mask) kw of
          Inl e \<Rightarrow> Inl e
        | Inr (dets, keep) \<Rightarrow>
            if \<not> list_all (\<lambda>k. k < length mask) keep then Inl IndexError
            else if list_ex (\<lambda>d. d = []) dets then Inl IndexError
            else if length dets \<noteq> length keep \<and> length dets \<noteq> 1 then Inl RuntimeError
            else Inr (fold (\<lambda>k tm. tm[mask ! k := True]) keep (fst st),
                      fold (\<lambda>(k, v) sa. sa[mask ! k := v])
                        (zip keep (row_scores dets (length keep))) (snd st)))"

fun split_loop ::
  "nms_op \<Rightarrow> real list list \<Rightarrow> real list \<Rightarrow> int list \<Rightarrow> nms_kwargs \<Rightarrow> int list
     \<Rightarrow> bool list \<times> real list \<Rightarrow> error + (bool list \<times> real list)"
where
  "split_loop nms_op boxes_for_nms scores idxs kw [] st = Inr st"
| "split_loop nms_op boxes_for_nms scores idxs kw (cid # cids) st =
     (case split_step nms_op boxes_for_nms scores idxs kw cid st of
        Inl e \<Rightarrow> Inl e
      | Inr st1 \<Rightarrow> split_loop nms_op boxes_for_nms scores idxs kw cids st1)"

text \<open>
  The branch at or above the split threshold. \<open>torch.unique\<close> gives the class ids sorted
  and without repetition; \<open>max_num\<close> is popped and applied to the merged result.
\<close>

definition batched_nms_split ::
  "nms_op \<Rightarrow> real list list \<Rightarrow> real list list \<Rightarrow> real list \<Rightarrow> int list \<Rightarrow> nms_kwargs
     \<Rightarrow> error + (real list list \<times> nat list)"
where
  "batched_nms_split nms_op boxes boxes_for_nms scores idxs kw =
     (let max_num = (case kw_max_num kw of None \<Rightarrow> - 1 | Some v \<Rightarrow> v);
          kw1 = kw\<lparr>kw_max_num := None\<rparr>
      in case split_loop nms_op boxes_for_nms scores idxs kw1 (sort (remdups idxs))
                (replicate (length scores) False, replicate (length scores) 0) of
           Inl e \<Rightarrow> Inl e
         | Inr (total_mask, scores_after_nms) \<Rightarrow>
             let keep0 = filter (\<lambda>i. total_mask ! i) [0..<length total_mask];
                 kept_scores = map (\<lambda>i. scores_after_nms ! i) keep0;
                 inds = argsort_desc kept_scores;
                 scores1 = map (\<lambda>i. kept_scores ! i) inds;
                 keep1 = map (\<lambda>i. keep0 ! i) inds
             in if \<not> list_all (\<lambda>k. k < length boxes) keep1 then Inl IndexError
                else
                  let boxes1 = map (\<lambda>k. boxes ! k) keep1;
                      keep2 = (if max_num > 0 then take (nat max_num) keep1 else keep1);
                      boxes2 = (if max_num > 0 then take (nat max_num) boxes1 else boxes1);
                      scores2 = (if max_num > 0 then take (nat max_num) scores1 else scores1)
                  in Inr (map2 (\<lambda>b s. b @ [s]) boxes2 scores2, keep2))"

definition batched_nms ::
  "real list list \<Rightarrow> real list \<Rightarrow> int list \<Rightarrow> nms_cfg option \<Rightarrow> bool
     \<Rightarrow> error + (real list list \<times> nat list)"
where
  "batched_nms boxes scores idxs nms_cfg class_agnostic =
     (case nms_cfg of
        None \<Rightarrow>
          (let inds = argsort_desc scores in
           if \<not> list_all (\<lambda>i. i < length boxes) inds then Inl IndexError
           else Inr (map (\<lambda>i. boxes ! i @ [scores ! i]) inds, inds))
      | Some cfg \<Rightarrow>
          (let class_agnostic1 =
                 (case cfg_class_agnostic cfg of None \<Rightarrow> class_agnostic | Some v \<Rightarrow> v);
               nms_op = (case cfg_type cfg of None \<Rightarrow> op_nms | Some f \<Rightarrow> f);
               split_thr = (case cfg_split_thr cfg of None \<Rightarrow> 10000 | Some v \<Rightarrow> v)
           in case boxes_for_nms_of boxes idxs class_agnostic1 of
                Inl e \<Rightarrow> Inl e
              | Inr boxes_for_nms \<Rightarrow>
                  if int (length boxes_for_nms) < split_thr
                  then batched_nms_single nms_op boxes boxes_for_nms scores (cfg_kwargs cfg)
                  else batched_nms_split nms_op boxes boxes_for_nms scores idxs
                         (cfg_kwargs cfg)))"






subsection \<open>nms_match and nms_quadri\<close>

definition nms_match :: "real list list \<Rightarrow> real \<Rightarrow> error + nat list list" where
  "nms_match dets iou_threshold =
     (if length dets = 0 then Inr []
      else if \<not> list_all (\<lambda>d. length d = 5) dets then Inl AssertionError
      else Inr (nms_match_pytorch dets iou_threshold))"

text \<open>
  \<open>nms_quadri_pytorch\<close> of mmcv/ops/pure_pytorch_nms.py is not among the sources and is a
  parameter here. The second component is \<open>None\<close> where the source returns \<open>None\<close>.
\<close>

definition nms_quadri ::
  "(real list list \<Rightarrow> real list \<Rightarrow> real \<Rightarrow> int list option \<Rightarrow> real list list \<times> nat list)
     \<Rightarrow> real list list \<Rightarrow> real list \<Rightarrow> real \<Rightarrow> int list option
     \<Rightarrow> real list list \<times> nat list option"
where
  "nms_quadri nms_quadri_pytorch dets scores iou_threshold labels =
     (if length dets = 0 then (dets, None)
      else case nms_quadri_pytorch dets scores iou_threshold labels of
             (dets_out, keep_inds) \<Rightarrow> (dets_out, Some keep_inds))"

section \<open>Properties\<close>

subsection \<open>Sorting by score\<close>

lemma argsort_desc_mset: "mset (argsort_desc scores) = mset [0..<length scores]"
  by (simp add: argsort_desc_def)

lemma argsort_desc_set: "set (argsort_desc scores) = {..<length scores}"
  by (auto simp: argsort_desc_def)


lemma argsort_desc_sorted: "sorted (map (\<lambda>i. - (scores ! i)) (argsort_desc scores))"
  by (simp add: argsort_desc_def)

lemma argsort_desc_distinct: "distinct (argsort_desc scores)"
  by (simp add: argsort_desc_def)

subsection \<open>The greedy scan\<close>

lemma unmarked_not_suppressed:
  "j \<in> set rest \<Longrightarrow> j \<notin> set (filter (\<lambda>j. j \<notin> set S \<and> sp i j) rest @ S) \<Longrightarrow> \<not> sp i j"
  by (cases "sp i j") simp_all

lemma greedy_scan_set: "set (greedy_scan sp xs S) \<subseteq> set xs - set S"
proof (induction xs arbitrary: S)
  case Nil
  show ?case by simp
next
  case (Cons i rest)
  show ?case
    using Cons.IH [of S] Cons.IH [of "filter (\<lambda>j. j \<notin> set S \<and> sp i j) rest @ S"]
    by auto
qed

lemma greedy_scan_sorted:
  "sorted (map f xs) \<Longrightarrow> sorted (map f (greedy_scan sp xs S))"
proof (induction xs arbitrary: S)
  case Nil
  show ?case by simp
next
  case (Cons i rest)
  let ?S = "filter (\<lambda>j. j \<notin> set S \<and> sp i j) rest @ S"
  from Cons.prems have srt: "sorted (map f rest)" and le: "\<forall>j \<in> set rest. f i \<le> f j"
    by auto
  show ?case
  proof (cases "i \<in> set S")
    case True
    then show ?thesis using Cons.IH [OF srt, of S] by simp
  next
    case False
    have "set (greedy_scan sp rest ?S) \<subseteq> set rest"
      using greedy_scan_set [of sp rest ?S] by (rule subset_trans) (rule Diff_subset)
    with le have "\<forall>j \<in> set (greedy_scan sp rest ?S). f i \<le> f j"
      by (simp only: subset_iff Ball_def) blast
    then show ?thesis
      using False Cons.IH [OF srt, of ?S] by simp
  qed
qed

lemma greedy_scan_distinct: "distinct xs \<Longrightarrow> distinct (greedy_scan sp xs S)"
proof (induction xs arbitrary: S)
  case Nil
  show ?case by simp
next
  case (Cons i rest)
  let ?S = "filter (\<lambda>j. j \<notin> set S \<and> sp i j) rest @ S"
  from Cons.prems have d: "distinct rest" and ni: "i \<notin> set rest"
    by auto
  show ?case
  proof (cases "i \<in> set S")
    case True
    then show ?thesis using Cons.IH [OF d, of S] by simp
  next
    case False
    have "set (greedy_scan sp rest ?S) \<subseteq> set rest"
      using greedy_scan_set [of sp rest ?S] by (rule subset_trans) (rule Diff_subset)
    with ni have "i \<notin> set (greedy_scan sp rest ?S)"
      by (simp only: subset_iff) blast
    then show ?thesis
      using False Cons.IH [OF d, of ?S] by simp
  qed
qed

lemma greedy_scan_no_overlap: "sorted_wrt (\<lambda>i j. \<not> sp i j) (greedy_scan sp xs S)"
proof (induction xs arbitrary: S)
  case Nil
  show ?case by simp
next
  case (Cons i rest)
  let ?S = "filter (\<lambda>j. j \<notin> set S \<and> sp i j) rest @ S"
  show ?case
  proof (cases "i \<in> set S")
    case True
    then show ?thesis using Cons.IH [of S] by simp
  next
    case False
    from False have eq: "greedy_scan sp (i # rest) S = i # greedy_scan sp rest ?S"
      by simp
    have "\<forall>j \<in> set (greedy_scan sp rest ?S). \<not> sp i j"
    proof (rule ballI)
      fix j
      assume j: "j \<in> set (greedy_scan sp rest ?S)"
      from greedy_scan_set [of sp rest ?S] j have "j \<in> set rest - set ?S"
        by (rule subsetD)
      then have "j \<in> set rest" and "j \<notin> set ?S"
        by (simp_all only: Diff_iff simp_thms)
      then show "\<not> sp i j" by (rule unmarked_not_suppressed [of j rest S sp i])
    qed
    then show ?thesis
      unfolding eq sorted_wrt.simps using Cons.IH [of ?S] by (rule conjI)
  qed
qed

lemma greedy_scan_id:
  "sorted_wrt (\<lambda>i j. \<not> sp i j) xs \<Longrightarrow> set xs \<inter> set S = {} \<Longrightarrow> greedy_scan sp xs S = xs"
proof (induction xs arbitrary: S)
  case Nil
  show ?case by simp
next
  case (Cons i rest)
  from Cons.prems have "\<forall>j \<in> set rest. \<not> sp i j"
    by simp
  then have nil: "filter (\<lambda>j. j \<notin> set S \<and> sp i j) rest = []"
    by (simp add: filter_empty_conv)
  from Cons.prems have ni: "i \<notin> set S" and sw: "sorted_wrt (\<lambda>i j. \<not> sp i j) rest"
    and dj: "set rest \<inter> set S = {}"
    by auto
  show ?case
    using ni nil Cons.IH [OF sw dj] by simp
qed

lemma nms_pytorch_range: "set (nms_pytorch boxes scores t) \<subseteq> {..<length scores}"
  using greedy_scan_set [of _ "argsort_desc scores" "[]"]
  by (auto simp: nms_pytorch_def argsort_desc_set)

lemma nms_pytorch_sorted:
  "sorted (map (\<lambda>i. - (scores ! i)) (nms_pytorch boxes scores t))"
  by (simp add: nms_pytorch_def greedy_scan_sorted argsort_desc_sorted)

lemma nms_pytorch_distinct: "distinct (nms_pytorch boxes scores t)"
  by (simp add: nms_pytorch_def greedy_scan_distinct argsort_desc_distinct)

lemma nms_pytorch_no_overlap:
  "sorted_wrt (\<lambda>i j. \<not> iou (boxes ! i) (boxes ! j) 0 > t) (nms_pytorch boxes scores t)"
  unfolding nms_pytorch_def by (rule greedy_scan_no_overlap)

subsection \<open>NMSop.forward\<close>

lemma nms_pytorch_nth:
  assumes "k \<in> set (nms_pytorch (map (\<lambda>i. xs ! i) valid) (map (\<lambda>i. ys ! i) valid) t)"
  shows "k < length valid"
  using assms nms_pytorch_range [of "map (\<lambda>i. xs ! i) valid" "map (\<lambda>i. ys ! i) valid" t]
  by auto

text \<open>The kept indices of NMSop.forward, written out for both settings of the score filter.\<close>

lemma NMSop_forward_unfiltered:
  "\<not> score_threshold > 0 \<Longrightarrow>
   NMSop_forward bboxes scores t offset score_threshold max_num
     = (if max_num > 0 then take (nat max_num) (nms_pytorch bboxes scores t)
        else nms_pytorch bboxes scores t)"
  by (simp add: NMSop_forward_def Let_def)

lemma NMSop_forward_filtered:
  "score_threshold > 0 \<Longrightarrow>
   NMSop_forward bboxes scores t offset score_threshold max_num
     = map (\<lambda>k. valid_inds scores score_threshold ! k)
         (if max_num > 0
          then take (nat max_num)
                 (nms_pytorch
                    (map (\<lambda>i. bboxes ! i) (valid_inds scores score_threshold))
                    (map (\<lambda>i. scores ! i) (valid_inds scores score_threshold))
                    t)
          else nms_pytorch
                 (map (\<lambda>i. bboxes ! i) (valid_inds scores score_threshold))
                 (map (\<lambda>i. scores ! i) (valid_inds scores score_threshold))
                 t)"
  by (simp add: NMSop_forward_def Let_def)

lemma capped_subset: "set (if (m::int) > 0 then take (nat m) xs else xs) \<subseteq> set xs"
  by (simp add: set_take_subset)

lemma capped_length: "(m::int) > 0 \<Longrightarrow> length (if m > 0 then take (nat m) xs else xs) \<le> nat m"
  by simp

lemma capped_sorted_wrt:
  "sorted_wrt P xs \<Longrightarrow> sorted_wrt P (if (m::int) > 0 then take (nat m) xs else xs)"
  by (simp add: sorted_wrt_take)

lemma NMSop_forward_range:
  "set (NMSop_forward bboxes scores t offset score_threshold max_num) \<subseteq> {..<length scores}"
proof (cases "score_threshold > 0")
  case False
  show ?thesis
    unfolding NMSop_forward_unfiltered [OF False]
    using capped_subset [of max_num "nms_pytorch bboxes scores t"]
      nms_pytorch_range [of bboxes scores t]
    by (rule subset_trans)
next
  case True
  let ?valid = "valid_inds scores score_threshold"
  let ?K = "nms_pytorch (map (\<lambda>i. bboxes ! i) ?valid) (map (\<lambda>i. scores ! i) ?valid) t"
  let ?C = "if max_num > 0 then take (nat max_num) ?K else ?K"
  have "?valid ! k < length scores" if "k \<in> set ?C" for k
  proof -
    from that capped_subset [of max_num ?K] have "k \<in> set ?K" by (rule rev_subsetD)
    then have "k < length ?valid" by (rule nms_pytorch_nth)
    then have "?valid ! k \<in> set ?valid" by (rule nth_mem)
    then show ?thesis by (simp add: valid_inds_def)
  qed
  then show ?thesis
    unfolding NMSop_forward_filtered [OF True] by auto
qed

lemma NMSop_forward_above_threshold:
  assumes "score_threshold > 0"
    and "k \<in> set (NMSop_forward bboxes scores t offset score_threshold max_num)"
  shows "scores ! k > score_threshold"
proof -
  let ?valid = "valid_inds scores score_threshold"
  let ?K = "nms_pytorch (map (\<lambda>i. bboxes ! i) ?valid) (map (\<lambda>i. scores ! i) ?valid) t"
  let ?C = "if max_num > 0 then take (nat max_num) ?K else ?K"
  from assms obtain c where c: "c \<in> set ?C" and k: "k = ?valid ! c"
    unfolding NMSop_forward_filtered [OF assms(1)] by auto
  from c capped_subset [of max_num ?K] have "c \<in> set ?K" by (rule rev_subsetD)
  then have "c < length ?valid" by (rule nms_pytorch_nth)
  then have "?valid ! c \<in> set ?valid" by (rule nth_mem)
  then show ?thesis unfolding k by (simp add: valid_inds_def)
qed

subsection \<open>The kept detections of NMSop.forward\<close>

lemma capped_all: "((m::int) > 0 \<longrightarrow> length xs \<le> nat m) \<Longrightarrow> (if m > 0 then take (nat m) xs else xs) = xs"
  by simp

lemma nms_pytorch_filtered_sorted:
  "sorted_wrt (\<lambda>x y. - (scores ! (V ! x)) \<le> - (scores ! (V ! y)))
     (nms_pytorch (map (\<lambda>i. bboxes ! i) V) (map (\<lambda>i. scores ! i) V) t)"
proof -
  let ?K = "nms_pytorch (map (\<lambda>i. bboxes ! i) V) (map (\<lambda>i. scores ! i) V) t"
  let ?S = "map (\<lambda>i. scores ! i) V"
  have "sorted (map (\<lambda>i. - (?S ! i)) ?K)"
    by (rule nms_pytorch_sorted)
  then have sw: "sorted_wrt (\<lambda>x y. - (?S ! x) \<le> - (?S ! y)) ?K"
    by (simp only: sorted_map)
  show ?thesis
  proof (rule sorted_wrt_mono_rel [OF _ sw])
    fix x y
    assume "x \<in> set ?K" and "y \<in> set ?K" and le: "- (?S ! x) \<le> - (?S ! y)"
    then have "x < length V" and "y < length V"
      by (auto dest: nms_pytorch_nth)
    with le show "- (scores ! (V ! x)) \<le> - (scores ! (V ! y))"
      by simp
  qed
qed

lemma nms_pytorch_filtered_no_overlap:
  "sorted_wrt (\<lambda>x y. \<not> iou (bboxes ! (V ! x)) (bboxes ! (V ! y)) 0 > t)
     (nms_pytorch (map (\<lambda>i. bboxes ! i) V) (map (\<lambda>i. scores ! i) V) t)"
proof -
  let ?K = "nms_pytorch (map (\<lambda>i. bboxes ! i) V) (map (\<lambda>i. scores ! i) V) t"
  let ?B = "map (\<lambda>i. bboxes ! i) V"
  have sw: "sorted_wrt (\<lambda>x y. \<not> iou (?B ! x) (?B ! y) 0 > t) ?K"
    by (rule nms_pytorch_no_overlap)
  show ?thesis
  proof (rule sorted_wrt_mono_rel [OF _ sw])
    fix x y
    assume "x \<in> set ?K" and "y \<in> set ?K" and no: "\<not> iou (?B ! x) (?B ! y) 0 > t"
    then have "x < length V" and "y < length V"
      by (auto dest: nms_pytorch_nth)
    with no show "\<not> iou (bboxes ! (V ! x)) (bboxes ! (V ! y)) 0 > t"
      by simp
  qed
qed

lemma NMSop_forward_sorted:
  "sorted_wrt (\<lambda>i j. scores ! j \<le> scores ! i)
     (NMSop_forward bboxes scores t offset score_threshold max_num)"
proof (cases "score_threshold > 0")
  case False
  have "sorted (map (\<lambda>i. - (scores ! i)) (nms_pytorch bboxes scores t))"
    by (rule nms_pytorch_sorted)
  then have "sorted_wrt (\<lambda>i j. scores ! j \<le> scores ! i) (nms_pytorch bboxes scores t)"
    by (simp add: sorted_map)
  then show ?thesis
    unfolding NMSop_forward_unfiltered [OF False] by (rule capped_sorted_wrt)
next
  case True
  let ?V = "valid_inds scores score_threshold"
  have "sorted_wrt (\<lambda>x y. - (scores ! (?V ! x)) \<le> - (scores ! (?V ! y)))
          (nms_pytorch (map (\<lambda>i. bboxes ! i) ?V) (map (\<lambda>i. scores ! i) ?V) t)"
    by (rule nms_pytorch_filtered_sorted)
  then have "sorted_wrt (\<lambda>x y. - (scores ! (?V ! x)) \<le> - (scores ! (?V ! y)))
          (if max_num > 0
           then take (nat max_num) (nms_pytorch (map (\<lambda>i. bboxes ! i) ?V) (map (\<lambda>i. scores ! i) ?V) t)
           else nms_pytorch (map (\<lambda>i. bboxes ! i) ?V) (map (\<lambda>i. scores ! i) ?V) t)"
    by (rule capped_sorted_wrt)
  then show ?thesis
    unfolding NMSop_forward_filtered [OF True] by (simp add: sorted_wrt_map)
qed

lemma NMSop_forward_no_overlap:
  "sorted_wrt (\<lambda>i j. \<not> iou (bboxes ! i) (bboxes ! j) 0 > t)
     (NMSop_forward bboxes scores t offset score_threshold max_num)"
proof (cases "score_threshold > 0")
  case False
  have "sorted_wrt (\<lambda>i j. \<not> iou (bboxes ! i) (bboxes ! j) 0 > t) (nms_pytorch bboxes scores t)"
    by (rule nms_pytorch_no_overlap)
  then show ?thesis
    unfolding NMSop_forward_unfiltered [OF False] by (rule capped_sorted_wrt)
next
  case True
  let ?V = "valid_inds scores score_threshold"
  have "sorted_wrt (\<lambda>x y. \<not> iou (bboxes ! (?V ! x)) (bboxes ! (?V ! y)) 0 > t)
          (nms_pytorch (map (\<lambda>i. bboxes ! i) ?V) (map (\<lambda>i. scores ! i) ?V) t)"
    by (rule nms_pytorch_filtered_no_overlap)
  then have "sorted_wrt (\<lambda>x y. \<not> iou (bboxes ! (?V ! x)) (bboxes ! (?V ! y)) 0 > t)
          (if max_num > 0
           then take (nat max_num) (nms_pytorch (map (\<lambda>i. bboxes ! i) ?V) (map (\<lambda>i. scores ! i) ?V) t)
           else nms_pytorch (map (\<lambda>i. bboxes ! i) ?V) (map (\<lambda>i. scores ! i) ?V) t)"
    by (rule capped_sorted_wrt)
  then show ?thesis
    unfolding NMSop_forward_filtered [OF True] by (simp add: sorted_wrt_map)
qed

lemma NMSop_forward_length:
  "max_num > 0 \<Longrightarrow> length (NMSop_forward bboxes scores t offset score_threshold max_num) \<le> nat max_num"
  by (cases "score_threshold > 0") (simp_all add: NMSop_forward_filtered NMSop_forward_unfiltered)


lemma map_nth_upt: "map (\<lambda>i. [0..<n] ! i) [0..<n] = [0..<n]"
  using map_nth [of "[0..<n]"] by simp

lemma nms_pytorch_fixed:
  assumes len: "length B = length S"
    and desc: "sorted_wrt (\<lambda>a b. b \<le> a) S"
    and nov: "sorted_wrt (\<lambda>a b. \<not> iou a b 0 > t) B"
  shows "nms_pytorch B S t = [0..<length S]"
proof -
  have "map (\<lambda>i. - (S ! i)) [0..<length S] = map uminus (map (\<lambda>i. S ! i) [0..<length S])"
    by simp
  also have "\<dots> = map uminus S"
    by (simp only: map_nth)
  finally have "sorted (map (\<lambda>i. - (S ! i)) [0..<length S])"
    using desc by (simp add: sorted_map)
  then have order: "argsort_desc S = [0..<length S]"
    unfolding argsort_desc_def by (rule sort_key_id_if_sorted)
  have "sorted_wrt (\<lambda>a b. \<not> iou a b 0 > t) (map (\<lambda>i. B ! i) [0..<length B])"
    using nov by (simp only: map_nth)
  then have "sorted_wrt (\<lambda>i j. \<not> iou (B ! i) (B ! j) 0 > t) [0..<length S]"
    unfolding len by (simp only: sorted_wrt_map)
  then have "greedy_scan (\<lambda>i j. iou (B ! i) (B ! j) 0 > t) [0..<length S] [] = [0..<length S]"
    by (rule greedy_scan_id) simp
  then show ?thesis
    unfolding nms_pytorch_def order .
qed

lemma valid_inds_all: "\<forall>s \<in> set S. s > st \<Longrightarrow> valid_inds S st = [0..<length S]"
  by (simp add: valid_inds_def filter_id_conv)

lemma NMSop_forward_fixed:
  assumes len: "length B = length S"
    and desc: "sorted_wrt (\<lambda>a b. b \<le> a) S"
    and nov: "sorted_wrt (\<lambda>a b. \<not> iou a b 0 > t) B"
    and cap: "max_num > 0 \<longrightarrow> length S \<le> nat max_num"
    and above: "score_threshold > 0 \<longrightarrow> (\<forall>s \<in> set S. s > score_threshold)"
  shows "NMSop_forward B S t offset score_threshold max_num = [0..<length S]"
proof -
  have K: "nms_pytorch B S t = [0..<length S]"
    using len desc nov by (rule nms_pytorch_fixed)
  have C: "(if max_num > 0 then take (nat max_num) [0..<length S] else [0..<length S]) = [0..<length S]"
    using cap by simp
  show ?thesis
  proof (cases "score_threshold > 0")
    case False
    show ?thesis
      unfolding NMSop_forward_unfiltered [OF False] K C ..
  next
    case True
    with above have V: "valid_inds S score_threshold = [0..<length S]"
      by (simp add: valid_inds_all)
    have B: "map (\<lambda>i. B ! i) [0..<length S] = B"
      using map_nth [of B] by (simp only: len)
    have S: "map (\<lambda>i. S ! i) [0..<length S] = S"
      by (rule map_nth)
    show ?thesis
      unfolding NMSop_forward_filtered [OF True] V B S K C by (rule map_nth_upt)
  qed
qed

subsection \<open>The class offsets of batched_nms\<close>

lemma tensor_max_Max:
  assumes "xs \<noteq> []"
  shows "tensor_max xs = Inr (Max (set xs))"
proof (cases xs)
  case Nil
  with assms show ?thesis by simp
next
  case (Cons x rest)
  have "Max (set (x # rest)) = fold max rest x"
    by (rule Max.set_eq_fold)
  then show ?thesis
    unfolding Cons by (simp add: tensor_max_def del: set_simps)
qed

lemma concat_rows_nonempty:
  assumes "rows \<noteq> []" and "\<forall>b \<in> set rows. f b \<noteq> []"
  shows "concat (map f rows) \<noteq> []"
  using assms by (cases rows) simp_all

lemma add_offsets_classes:
  "length idxs = length rows \<Longrightarrow>
   add_offsets shift rows (map g idxs) = Inr (map2 (\<lambda>b c. shift b (g c)) rows idxs)"
  by (simp add: add_offsets_def zip_map2 split_def)

lemma shift_rotated:
  "length b = 5 \<Longrightarrow>
   map (\<lambda>x. x + off) (take 2 b) @ take 3 (drop 2 b) = [b ! 0 + off, b ! 1 + off, b ! 2, b ! 3, b ! 4]"
proof -
  assume "length b = 5"
  then obtain x0 x1 x2 x3 x4 where "b = [x0, x1, x2, x3, x4]"
    by (auto simp: length_Suc_conv eval_nat_numeral)
  then show ?thesis
    by simp
qed

lemma boxes_for_nms_axis_aligned:
  assumes ne: "boxes \<noteq> []" and len: "length idxs = length boxes"
    and shape: "list_all (\<lambda>b. length b = 4) boxes"
  shows "boxes_for_nms_of boxes idxs False
           = Inr (map2 (\<lambda>b c. map (\<lambda>x. x + of_int c * (Max (set (concat boxes)) + 1)) b) boxes idxs)"
proof -
  from ne shape have hd4: "length (hd boxes) = 4"
    by (cases boxes) simp_all
  have "concat (map (\<lambda>b. b) boxes) \<noteq> []"
    using ne
  proof (rule concat_rows_nonempty)
    show "\<forall>b \<in> set boxes. b \<noteq> []"
      using shape by (auto simp: list_all_iff)
  qed
  then have "concat boxes \<noteq> []"
    by simp
  then have mx: "tensor_max (concat boxes) = Inr (Max (set (concat boxes)))"
    by (rule tensor_max_Max)
  show ?thesis
    using hd4 by (simp add: boxes_for_nms_of_def mx Let_def add_offsets_classes [OF len])
qed

lemma boxes_for_nms_rotated:
  assumes ne: "boxes \<noteq> []" and len: "length idxs = length boxes"
    and shape: "list_all (\<lambda>b. length b = 5) boxes"
  shows "boxes_for_nms_of boxes idxs False
           = Inr (map2 (\<lambda>b c. map (\<lambda>x. x + of_int c *
                                   (Max (set (concat (map (take 2) boxes)))
                                    + Max (set (concat (map (\<lambda>b. take 2 (drop 2 b)) boxes))) + 1))
                                (take 2 b) @ take 3 (drop 2 b))
                    boxes idxs)"
proof -
  from ne shape have hd5: "length (hd boxes) = 5"
    by (cases boxes) simp_all
  have "concat (map (take 2) boxes) \<noteq> []"
    using ne
  proof (rule concat_rows_nonempty)
    show "\<forall>b \<in> set boxes. take 2 b \<noteq> []"
      using shape by (auto simp: list_all_iff)
  qed
  then have m1: "tensor_max (concat (map (take 2) boxes))
                   = Inr (Max (set (concat (map (take 2) boxes))))"
    by (rule tensor_max_Max)
  have "concat (map (\<lambda>b. take 2 (drop 2 b)) boxes) \<noteq> []"
    using ne
  proof (rule concat_rows_nonempty)
    show "\<forall>b \<in> set boxes. take 2 (drop 2 b) \<noteq> []"
      using shape by (auto simp: list_all_iff)
  qed
  then have m2: "tensor_max (concat (map (\<lambda>b. take 2 (drop 2 b)) boxes))
                   = Inr (Max (set (concat (map (\<lambda>b. take 2 (drop 2 b)) boxes))))"
    by (rule tensor_max_Max)
  have glue: "map2 (\<lambda>ctr b. ctr @ take 3 (drop 2 b)) (map2 (\<lambda>b c. f b c) boxes idxs) boxes
                = map2 (\<lambda>b c. f b c @ take 3 (drop 2 b)) boxes idxs" for f :: "real list \<Rightarrow> int \<Rightarrow> real list"
    using len by (intro nth_equalityI) simp_all
  show ?thesis
    using ne hd5 len
    by (simp add: boxes_for_nms_of_def m1 m2 Let_def add_offsets_classes [OF len] glue)
qed

lemma batched_nms_single_rows:
  assumes "batched_nms_single nms_op boxes boxes_for_nms scores kw = Inr (out, keep)"
  shows "length out = length keep
         \<and> (\<forall>p < length keep. keep ! p < length boxes \<and> butlast (out ! p) = boxes ! (keep ! p))"
proof -
  from assms obtain dets where op: "nms_op boxes_for_nms scores kw = Inr (dets, keep)"
    and rng: "list_all (\<lambda>k. k < length boxes) keep"
    and len: "length dets = length keep"
    and out: "out = map2 (\<lambda>k d. boxes ! k @ [last d]) keep dets"
    by (auto simp: batched_nms_single_def split: sum.splits prod.splits if_splits)
  from rng have "\<forall>p < length keep. keep ! p < length boxes"
    by (simp add: list_all_length)
  then show ?thesis
    unfolding out using len by simp
qed


lemma batched_nms_below_split:
  assumes agn: "(case cfg_class_agnostic cfg of None \<Rightarrow> class_agnostic | Some v \<Rightarrow> v) = False"
    and ne: "boxes \<noteq> []"
    and len: "length idxs = length boxes"
    and shape: "list_all (\<lambda>b. length b = 4) boxes \<or> list_all (\<lambda>b. length b = 5) boxes"
    and small: "int (length boxes) < (case cfg_split_thr cfg of None \<Rightarrow> 10000 | Some v \<Rightarrow> v)"
  shows "batched_nms boxes scores idxs (Some cfg) class_agnostic
           = batched_nms_single (case cfg_type cfg of None \<Rightarrow> op_nms | Some f \<Rightarrow> f) boxes
               (if list_all (\<lambda>b. length b = 4) boxes
                then map2 (\<lambda>b c. map (\<lambda>x. x + of_int c * (Max (set (concat boxes)) + 1)) b)
                       boxes idxs
                else map2 (\<lambda>b c.
                        [b ! 0 + of_int c *
                           (Max (set (concat (map (take 2) boxes)))
                            + Max (set (concat (map (\<lambda>b. take 2 (drop 2 b)) boxes))) + 1),
                         b ! 1 + of_int c *
                           (Max (set (concat (map (take 2) boxes)))
                            + Max (set (concat (map (\<lambda>b. take 2 (drop 2 b)) boxes))) + 1),
                         b ! 2, b ! 3, b ! 4])
                       boxes idxs)
               scores (cfg_kwargs cfg)
         \<and> (\<forall>out keep. batched_nms boxes scores idxs (Some cfg) class_agnostic = Inr (out, keep)
               \<longrightarrow> length out = length keep
                   \<and> (\<forall>p < length keep.
                         keep ! p < length boxes \<and> butlast (out ! p) = boxes ! (keep ! p)))"
proof -
  let ?M5 = "Max (set (concat (map (take 2) boxes)))
             + Max (set (concat (map (\<lambda>b. take 2 (drop 2 b)) boxes)))"
  let ?shifted = "if list_all (\<lambda>b. length b = 4) boxes
                  then map2 (\<lambda>b c. map (\<lambda>x. x + of_int c * (Max (set (concat boxes)) + 1)) b)
                         boxes idxs
                  else map2 (\<lambda>b c. [b ! 0 + of_int c * (?M5 + 1), b ! 1 + of_int c * (?M5 + 1),
                                      b ! 2, b ! 3, b ! 4]) boxes idxs"
  have bfn: "boxes_for_nms_of boxes idxs False = Inr ?shifted"
  proof (cases "list_all (\<lambda>b. length b = 4) boxes")
    case True
    with boxes_for_nms_axis_aligned [OF ne len True] show ?thesis
      by simp
  next
    case False
    with shape have five: "list_all (\<lambda>b. length b = 5) boxes"
      by simp
    have "map2 (\<lambda>b c. map (\<lambda>x. x + of_int c * (?M5 + 1)) (take 2 b) @ take 3 (drop 2 b)) boxes idxs
            = map2 (\<lambda>b c. [b ! 0 + of_int c * (?M5 + 1), b ! 1 + of_int c * (?M5 + 1),
                            b ! 2, b ! 3, b ! 4]) boxes idxs"
    proof (rule map_cong [OF refl])
      fix z
      assume z: "z \<in> set (zip boxes idxs)"
      obtain b c where bc: "z = (b, c)"
        by (cases z)
      from z have "b \<in> set boxes"
        unfolding bc by (rule set_zip_leftD)
      with five have l5: "length b = 5"
        by (simp add: list_all_iff)
      show "(case z of (b, c) \<Rightarrow>
                    map (\<lambda>x. x + of_int c * (?M5 + 1)) (take 2 b) @ take 3 (drop 2 b))
                 = (case z of (b, c) \<Rightarrow>
                    [b ! 0 + of_int c * (?M5 + 1), b ! 1 + of_int c * (?M5 + 1), b ! 2, b ! 3, b ! 4])"
        unfolding bc prod.case by (rule shift_rotated [OF l5])
    qed
    with boxes_for_nms_rotated [OF ne len five] False show ?thesis
      by simp
  qed
  have "length ?shifted = length boxes"
    using len by simp
  with small have below: "int (length ?shifted) < (case cfg_split_thr cfg of None \<Rightarrow> 10000 | Some v \<Rightarrow> v)"
    by (simp only:)
  have run: "batched_nms boxes scores idxs (Some cfg) class_agnostic
               = batched_nms_single (case cfg_type cfg of None \<Rightarrow> op_nms | Some f \<Rightarrow> f) boxes
                   ?shifted scores (cfg_kwargs cfg)"
    unfolding batched_nms_def using agn bfn below by (simp add: Let_def)
  have "length out = length keep
        \<and> (\<forall>p < length keep. keep ! p < length boxes \<and> butlast (out ! p) = boxes ! (keep ! p))"
    if "batched_nms boxes scores idxs (Some cfg) class_agnostic = Inr (out, keep)" for out keep
    using that unfolding run by (rule batched_nms_single_rows)
  with run show ?thesis
    by blast
qed

lemma nms_rejects_rotated:
  "boxes \<noteq> [] \<Longrightarrow> list_all (\<lambda>b. length b = 5) boxes \<Longrightarrow> isl (op_nms boxes scores kw)"
  by (cases boxes) (auto simp: op_nms_def nms_def split: option.splits)

lemma soft_nms_rejects_rotated:
  "boxes \<noteq> [] \<Longrightarrow> list_all (\<lambda>b. length b = 5) boxes \<Longrightarrow> isl (op_soft_nms boxes scores kw)"
  by (cases boxes) (auto simp: op_soft_nms_def soft_nms_def simp del: soft_loop.simps)

subsection \<open>The loop over the classes\<close>










lemma class_mask_distinct: "distinct (class_mask idxs c)"
  by (simp add: class_mask_def)





lemma capped_take:
  "(if (m::int) > 0 then take (nat m) xs else xs)
     = take (if m > 0 then nat m else length xs) xs"
  by simp


lemma rows_sorted:
  assumes "length bs = length ss" and "sorted_wrt (\<lambda>a b. b \<le> a) ss"
  shows "sorted_wrt (\<lambda>a b. last b \<le> last a) (map2 (\<lambda>b s. b @ [s]) bs ss)"
proof -
  have "map last (map2 (\<lambda>b s. b @ [s]) bs ss) = map snd (zip bs ss)"
    by (simp add: split_def)
  also have "\<dots> = ss"
    using assms(1) by (rule map_snd_zip)
  finally have "sorted_wrt (\<lambda>a b. b \<le> a) (map last (map2 (\<lambda>b s. b @ [s]) bs ss))"
    using assms(2) by simp
  then show ?thesis
    by (simp only: sorted_wrt_map)
qed






subsection \<open>Shifting all boxes of a class\<close>






















subsection \<open>Inputs without boxes\<close>

lemma soft_loop_Nil: "soft_loop t g m k [] = []"
  by (subst soft_loop.simps) simp

lemma soft_nms_pytorch_Nil:
  "k \<in> {''naive'', ''linear'', ''gaussian''} \<Longrightarrow> soft_nms_pytorch [] [] t g m k = Inr ([], [])"
  by (simp add: soft_nms_pytorch_def soft_loop_Nil del: soft_loop.simps)

lemma nms_Nil: "offset \<in> {0, 1} \<Longrightarrow> nms [] [] t offset st mn = Inr ([], [])"
  by (simp add: nms_def NMSop_forward_def valid_inds_def nms_pytorch_def argsort_desc_def)

lemma soft_nms_Nil:
  "offset \<in> {0, 1} \<Longrightarrow> k \<in> {''naive'', ''linear'', ''gaussian''}
   \<Longrightarrow> soft_nms [] [] t g m k offset = Inr ([], [])"
  using soft_nms_pytorch_Nil [of k t g m]
  by (auto simp: soft_nms_def SoftNMSop_forward_def method_dict_def method_map_def
           simp del: soft_loop.simps)

lemma batched_nms_agnostic_Nil:
  "(case ag of None \<Rightarrow> ca | Some v \<Rightarrow> v) \<Longrightarrow>
   batched_nms [] [] []
     (Some \<lparr>cfg_class_agnostic = ag, cfg_type = None, cfg_split_thr = spl,
            cfg_kwargs = \<lparr>kw_iou_threshold = Some t, kw_offset = None,
              kw_score_threshold = sto, kw_max_num = mno, kw_sigma = None,
              kw_min_score = None, kw_method = None\<rparr>\<rparr>) ca
   = Inr ([], [])"
  by (simp add: batched_nms_def boxes_for_nms_of_def batched_nms_single_def batched_nms_split_def
        op_nms_def nms_Nil argsort_desc_def Let_def split: option.splits)

text \<open>
  The other entry points, batched_nms without a config and batched_nms in class-agnostic
  mode (by the argument or by the config) return empty outputs for an input without
  boxes.
\<close>

lemma empty_input_elsewhere:
  "nms [] [] t 0 st mn = Inr ([], [])
   \<and> nms [] [] t 1 st mn = Inr ([], [])
   \<and> soft_nms [] [] t g m ''naive'' 0 = Inr ([], [])
   \<and> soft_nms [] [] t g m ''linear'' 0 = Inr ([], [])
   \<and> soft_nms [] [] t g m ''gaussian'' 0 = Inr ([], [])
   \<and> soft_nms [] [] t g m ''naive'' 1 = Inr ([], [])
   \<and> soft_nms [] [] t g m ''linear'' 1 = Inr ([], [])
   \<and> soft_nms [] [] t g m ''gaussian'' 1 = Inr ([], [])
   \<and> nms_match [] t = Inr []
   \<and> nms_quadri nms_quadri_pytorch [] scores t labels = ([], None)
   \<and> batched_nms [] [] [] None ca = Inr ([], [])
   \<and> batched_nms [] [] []
        (Some \<lparr>cfg_class_agnostic = Some True, cfg_type = None, cfg_split_thr = spl,
               cfg_kwargs = \<lparr>kw_iou_threshold = Some t, kw_offset = None,
                 kw_score_threshold = sto, kw_max_num = mno, kw_sigma = None,
                 kw_min_score = None, kw_method = None\<rparr>\<rparr>) ca
       = Inr ([], [])
   \<and> batched_nms [] [] []
        (Some \<lparr>cfg_class_agnostic = None, cfg_type = None, cfg_split_thr = spl,
               cfg_kwargs = \<lparr>kw_iou_threshold = Some t, kw_offset = None,
                 kw_score_threshold = sto, kw_max_num = mno, kw_sigma = None,
                 kw_min_score = None, kw_method = None\<rparr>\<rparr>) True
       = Inr ([], [])"
proof -
  have "batched_nms [] [] [] None ca = Inr ([], [])"
    by (simp add: batched_nms_def argsort_desc_def)
  moreover have "nms_match [] t = Inr []"
    by (simp add: nms_match_def)
  moreover have "nms_quadri nms_quadri_pytorch [] scores t labels = ([], None)"
    by (simp add: nms_quadri_def)
  ultimately show ?thesis
    by (simp add: nms_Nil soft_nms_Nil batched_nms_agnostic_Nil del: soft_loop.simps)
qed

subsection \<open>The grouping scan\<close>

lemma filter_unmarked:
  "filter (\<lambda>j. j \<notin> set (filter (\<lambda>j. j \<notin> set S \<and> sp i j) rest @ S)) rest
     = filter (\<lambda>j. \<not> sp i j) (filter (\<lambda>j. j \<notin> set S) rest)"
proof -
  have "filter (\<lambda>j. j \<notin> set (filter (\<lambda>j. j \<notin> set S \<and> sp i j) rest @ S)) rest
          = filter (\<lambda>j. j \<notin> set S \<and> \<not> sp i j) rest"
  proof (rule filter_cong [OF refl])
    fix j
    assume "j \<in> set rest"
    then show "(j \<notin> set (filter (\<lambda>j. j \<notin> set S \<and> sp i j) rest @ S)) = (j \<notin> set S \<and> \<not> sp i j)"
      by (cases "sp i j") simp_all
  qed
  also have "\<dots> = filter (\<lambda>j. \<not> sp i j) (filter (\<lambda>j. j \<notin> set S) rest)"
    by (simp add: conj_commute)
  finally show ?thesis .
qed

lemma filter_marked:
  "filter (\<lambda>j. j \<notin> set S \<and> sp i j) rest = filter (\<lambda>j. sp i j) (filter (\<lambda>j. j \<notin> set S) rest)"
  by (simp add: conj_commute)

lemma match_scan_mset:
  "mset (concat (match_scan sp xs S)) = mset (filter (\<lambda>j. j \<notin> set S) xs)"
proof (induction xs arbitrary: S)
  case Nil
  show ?case by simp
next
  case (Cons i rest)
  let ?G = "filter (\<lambda>j. j \<notin> set S \<and> sp i j) rest"
  let ?U = "filter (\<lambda>j. j \<notin> set S) rest"
  show ?case
  proof (cases "i \<in> set S")
    case True
    then show ?thesis using Cons.IH [of S] by simp
  next
    case False
    then have eq: "match_scan sp (i # rest) S = (i # ?G) # match_scan sp rest (?G @ S)"
      by simp
    have a: "mset (concat (match_scan sp rest (?G @ S))) = mset (filter (\<lambda>j. \<not> sp i j) ?U)"
      unfolding Cons.IH [of "?G @ S"] filter_unmarked ..
    have b: "mset ?G = mset (filter (\<lambda>j. sp i j) ?U)"
      unfolding filter_marked ..
    have c: "mset (filter (\<lambda>j. sp i j) ?U) + mset (filter (\<lambda>j. \<not> sp i j) ?U) = mset ?U"
      unfolding mset_filter by (rule multiset_partition [symmetric])
    have "mset (concat (match_scan sp (i # rest) S))
            = add_mset i (mset ?G + mset (concat (match_scan sp rest (?G @ S))))"
      unfolding eq by (simp only: concat.simps mset_append mset.simps union_mset_add_mset_left)
    also have "\<dots> = add_mset i (mset ?U)"
      unfolding a b c ..
    finally have "mset (concat (match_scan sp (i # rest) S)) = add_mset i (mset ?U)" .
    then show ?thesis
      using False by simp
  qed
qed

lemma match_scan_head:
  assumes "sorted (map f xs)" and "g \<in> set (match_scan sp xs S)"
  shows "g \<noteq> [] \<and> (\<forall>k \<in> set g. f (hd g) \<le> f k)"
  using assms
proof (induction xs arbitrary: S)
  case Nil
  then show ?case by simp
next
  case (Cons i rest)
  let ?G = "filter (\<lambda>j. j \<notin> set S \<and> sp i j) rest"
  from Cons.prems(1) have srt: "sorted (map f rest)" and le: "\<forall>j \<in> set rest. f i \<le> f j"
    by auto
  show ?case
  proof (cases "i \<in> set S")
    case True
    with Cons.prems(2) have "g \<in> set (match_scan sp rest S)"
      by simp
    with srt show ?thesis by (rule Cons.IH)
  next
    case False
    then have eq: "match_scan sp (i # rest) S = (i # ?G) # match_scan sp rest (?G @ S)"
      by simp
    from Cons.prems(2) have "g = i # ?G \<or> g \<in> set (match_scan sp rest (?G @ S))"
      unfolding eq by (simp only: set_simps insert_iff)
    then show ?thesis
    proof
      assume g: "g = i # ?G"
      have "set ?G \<subseteq> set rest"
        by (rule filter_is_subset)
      with le have "\<forall>k \<in> set ?G. f i \<le> f k"
        by (simp only: subset_iff Ball_def) blast
      then show ?thesis
        unfolding g by (simp only: list.sel set_simps) blast
    next
      assume "g \<in> set (match_scan sp rest (?G @ S))"
      with srt show ?thesis by (rule Cons.IH)
    qed
  qed
qed


subsection \<open>The specified properties\<close>




text \<open>
  C4: without a config, batched_nms suppresses nothing. It returns every detection once,
  each row the unchanged box followed by its score, in descending order of score,
  together with the sorting indices.
\<close>

theorem batched_nms_no_cfg:
  assumes "length scores = length boxes"
  shows "batched_nms boxes scores idxs None class_agnostic
           = Inr (map (\<lambda>i. boxes ! i @ [scores ! i]) (argsort_desc scores), argsort_desc scores)
         \<and> mset (argsort_desc scores) = mset [0..<length boxes]
         \<and> sorted_wrt (\<lambda>i j. scores ! j \<le> scores ! i) (argsort_desc scores)"
proof -
  have "\<forall>i \<in> set (argsort_desc scores). i < length boxes"
    using assms by (simp add: argsort_desc_set)
  then have "batched_nms boxes scores idxs None class_agnostic
           = Inr (map (\<lambda>i. boxes ! i @ [scores ! i]) (argsort_desc scores), argsort_desc scores)"
    by (simp add: batched_nms_def Let_def list_all_iff)
  moreover have "sorted_wrt (\<lambda>i j. scores ! j \<le> scores ! i) (argsort_desc scores)"
    using argsort_desc_sorted [of scores] by (simp add: sorted_map)
  ultimately show ?thesis
    using assms by (simp add: argsort_desc_mset)
qed

theorem batched_nms_no_cfg_witness:
  "length [1 / 2, 9 / 10 :: real] = length [[0, 0, 1, 1], [2, 2, 3, 3 :: real]]
   \<and> batched_nms [[0, 0, 1, 1], [2, 2, 3, 3]] [1 / 2, 9 / 10] [0, 0] None False
       = Inr ([[2, 2, 3, 3, 9 / 10], [0, 0, 1, 1, 1 / 2]], [1, 0])"
  using batched_nms_no_cfg [of "[1 / 2, 9 / 10]" "[[0, 0, 1, 1], [2, 2, 3, 3]]" "[0, 0]" False]
  by (simp add: argsort_desc_def)

text \<open>
  C5: when batched_nms is not class-agnostic and the input is below the split threshold,
  its result is that of the op called on the shifted boxes. The box of class c is shifted
  by c times (the maximal coordinate + 1): on all four coordinates of an axis-aligned
  box, with the maximum over all entries, and on the centre of a rotated box (rows of
  five numbers), with the maximum of the centres plus the maximum of widths and heights.
  The returned rows are the input boxes at the positions that the op keeps, each followed
  by the score of the op's row. For axis-aligned boxes this is suppression on the shifted
  boxes; for rotated boxes the ops of the module fail: nms and soft_nms take four
  columns, and rotated NMS has been removed.
\<close>

theorem batched_nms_offset_trick:
  assumes agn: "(case cfg_class_agnostic cfg of None \<Rightarrow> class_agnostic | Some v \<Rightarrow> v) = False"
    and ne: "boxes \<noteq> []"
    and len: "length idxs = length boxes"
    and shape: "list_all (\<lambda>b. length b = 4) boxes \<or> list_all (\<lambda>b. length b = 5) boxes"
    and small: "int (length boxes) < (case cfg_split_thr cfg of None \<Rightarrow> 10000 | Some v \<Rightarrow> v)"
  shows "batched_nms boxes scores idxs (Some cfg) class_agnostic
           = (case (case cfg_type cfg of None \<Rightarrow> op_nms | Some f \<Rightarrow> f)
                     (if list_all (\<lambda>b. length b = 4) boxes
                      then map2 (\<lambda>b c. map (\<lambda>x. x + of_int c * (Max (set (concat boxes)) + 1)) b)
                             boxes idxs
                      else map2 (\<lambda>b c.
                              [b ! 0 + of_int c *
                                 (Max (set (concat (map (take 2) boxes)))
                                  + Max (set (concat (map (\<lambda>b. take 2 (drop 2 b)) boxes))) + 1),
                               b ! 1 + of_int c *
                                 (Max (set (concat (map (take 2) boxes)))
                                  + Max (set (concat (map (\<lambda>b. take 2 (drop 2 b)) boxes))) + 1),
                               b ! 2, b ! 3, b ! 4])
                             boxes idxs)
                     scores (cfg_kwargs cfg) of
                Inl e \<Rightarrow> Inl e
              | Inr (dets, keep) \<Rightarrow>
                  if \<not> list_all (\<lambda>k. k < length boxes) keep then Inl IndexError
                  else if list_ex (\<lambda>d. d = []) dets then Inl IndexError
                  else if length dets \<noteq> length keep then Inl RuntimeError
                  else Inr (map2 (\<lambda>k d. boxes ! k @ [last d]) keep dets, keep))
         \<and> (list_all (\<lambda>b. length b = 5) boxes
              \<longrightarrow> cfg_type cfg \<in> {None, Some op_nms, Some op_soft_nms, Some nms_rotated}
              \<longrightarrow> isl (batched_nms boxes scores idxs (Some cfg) class_agnostic))"
proof -
  let ?op = "case cfg_type cfg of None \<Rightarrow> op_nms | Some f \<Rightarrow> f"
  let ?M5 = "Max (set (concat (map (take 2) boxes)))
             + Max (set (concat (map (\<lambda>b. take 2 (drop 2 b)) boxes)))"
  let ?shifted = "if list_all (\<lambda>b. length b = 4) boxes
                  then map2 (\<lambda>b c. map (\<lambda>x. x + of_int c * (Max (set (concat boxes)) + 1)) b)
                         boxes idxs
                  else map2 (\<lambda>b c. [b ! 0 + of_int c * (?M5 + 1), b ! 1 + of_int c * (?M5 + 1),
                                      b ! 2, b ! 3, b ! 4]) boxes idxs"
  from batched_nms_below_split [OF agn ne len shape small]
  have run: "batched_nms boxes scores idxs (Some cfg) class_agnostic
               = batched_nms_single ?op boxes ?shifted scores (cfg_kwargs cfg)"
    by (rule conjunct1)
  have first: "batched_nms boxes scores idxs (Some cfg) class_agnostic
           = (case ?op ?shifted scores (cfg_kwargs cfg) of
                Inl e \<Rightarrow> Inl e
              | Inr (dets, keep) \<Rightarrow>
                  if \<not> list_all (\<lambda>k. k < length boxes) keep then Inl IndexError
                  else if list_ex (\<lambda>d. d = []) dets then Inl IndexError
                  else if length dets \<noteq> length keep then Inl RuntimeError
                  else Inr (map2 (\<lambda>k d. boxes ! k @ [last d]) keep dets, keep))"
    unfolding run batched_nms_single_def ..
  have second: "isl (batched_nms boxes scores idxs (Some cfg) class_agnostic)"
    if five: "list_all (\<lambda>b. length b = 5) boxes"
      and ops: "cfg_type cfg \<in> {None, Some op_nms, Some op_soft_nms, Some nms_rotated}"
  proof -
    from five ne have no4: "\<not> list_all (\<lambda>b. length b = 4) boxes"
      by (cases boxes) simp_all
    let ?rot = "map2 (\<lambda>b c. [b ! 0 + of_int c * (?M5 + 1), b ! 1 + of_int c * (?M5 + 1),
                             b ! 2, b ! 3, b ! 4]) boxes idxs"
    have rne: "?rot \<noteq> []"
      using ne len by (cases boxes; cases idxs) simp_all
    have r5: "list_all (\<lambda>b. length b = 5) ?rot"
      by (simp add: list_all_iff split_def)
    from ops have "?op = op_nms \<or> ?op = op_soft_nms \<or> ?op = nms_rotated"
      by auto
    moreover have "isl (nms_rotated ?rot scores (cfg_kwargs cfg))"
      by (simp add: nms_rotated_def)
    ultimately have "isl (?op ?rot scores (cfg_kwargs cfg))"
      using nms_rejects_rotated [OF rne r5] soft_nms_rejects_rotated [OF rne r5] by auto
    then obtain e where "?op ?rot scores (cfg_kwargs cfg) = Inl e"
      by (auto simp: isl_def)
    then show ?thesis
      unfolding first using no4 by simp
  qed
  from first second show ?thesis
    by blast
qed


theorem batched_nms_offset_trick_witness:
  "[[0, 0, 10, 10], [1, 1, 9, 9 :: real]] \<noteq> []
   \<and> length [0, 1 :: int] = length [[0, 0, 10, 10], [1, 1, 9, 9 :: real]]
   \<and> op_nms [[0, 0, 10, 10], [12, 12, 20, 20]] [9 / 10, 4 / 5]
        \<lparr>kw_iou_threshold = Some (1 / 2), kw_offset = None, kw_score_threshold = None,
         kw_max_num = None, kw_sigma = None, kw_min_score = None, kw_method = None\<rparr>
       = Inr ([[0, 0, 10, 10, 9 / 10], [12, 12, 20, 20, 4 / 5]], [0, 1])
   \<and> op_nms [[0, 0, 10, 10], [1, 1, 9, 9]] [9 / 10, 4 / 5]
        \<lparr>kw_iou_threshold = Some (1 / 2), kw_offset = None, kw_score_threshold = None,
         kw_max_num = None, kw_sigma = None, kw_min_score = None, kw_method = None\<rparr>
       = Inr ([[0, 0, 10, 10, 9 / 10]], [0])
   \<and> batched_nms [[0, 0, 10, 10], [1, 1, 9, 9]] [9 / 10, 4 / 5] [0, 1]
        (Some \<lparr>cfg_class_agnostic = None, cfg_type = None, cfg_split_thr = None,
               cfg_kwargs = \<lparr>kw_iou_threshold = Some (1 / 2), kw_offset = None,
                 kw_score_threshold = None, kw_max_num = None, kw_sigma = None,
                 kw_min_score = None, kw_method = None\<rparr>\<rparr>) False
       = Inr ([[0, 0, 10, 10, 9 / 10], [1, 1, 9, 9, 4 / 5]], [0, 1])
   \<and> isl (batched_nms [[5, 5, 2, 2, 0]] [9 / 10] [1]
        (Some \<lparr>cfg_class_agnostic = None, cfg_type = None, cfg_split_thr = None,
               cfg_kwargs = \<lparr>kw_iou_threshold = Some (1 / 2), kw_offset = None,
                 kw_score_threshold = None, kw_max_num = None, kw_sigma = None,
                 kw_min_score = None, kw_method = None\<rparr>\<rparr>) False)"
proof -
  let ?boxes = "[[0, 0, 10, 10], [1, 1, 9, 9 :: real]]"
  let ?kw = "\<lparr>kw_iou_threshold = Some (1 / 2), kw_offset = None, kw_score_threshold = None,
              kw_max_num = None, kw_sigma = None, kw_min_score = None, kw_method = None\<rparr>"
  let ?cfg = "\<lparr>cfg_class_agnostic = None, cfg_type = None, cfg_split_thr = None,
               cfg_kwargs = ?kw\<rparr>"
  have agn: "(case cfg_class_agnostic ?cfg of None \<Rightarrow> False | Some v \<Rightarrow> v) = False"
    by simp
  have ne: "?boxes \<noteq> []"
    by simp
  have len: "length [0, 1 :: int] = length ?boxes"
    by simp
  have shape: "list_all (\<lambda>b. length b = 4) ?boxes \<or> list_all (\<lambda>b. length b = 5) ?boxes"
    by simp
  have small: "int (length ?boxes) < (case cfg_split_thr ?cfg of None \<Rightarrow> 10000 | Some v \<Rightarrow> v)"
    by simp
  have shifted: "op_nms [[0, 0, 10, 10], [12, 12, 20, 20]] [9 / 10, 4 / 5] ?kw
                   = Inr ([[0, 0, 10, 10, 9 / 10], [12, 12, 20, 20, 4 / 5]], [0, 1])"
    by code_simp
  have plain: "op_nms ?boxes [9 / 10, 4 / 5] ?kw = Inr ([[0, 0, 10, 10, 9 / 10]], [0])"
    by code_simp
  have mx: "Max (set (concat ?boxes)) = 10"
    by simp
  from batched_nms_offset_trick [OF agn ne len shape small, of "[9 / 10, 4 / 5]"]
  have run: "batched_nms ?boxes [9 / 10, 4 / 5] [0, 1] (Some ?cfg) False
               = Inr ([[0, 0, 10, 10, 9 / 10], [1, 1, 9, 9, 4 / 5]], [0, 1])"
    by (simp add: mx shifted)
  let ?rot = "[[5, 5, 2, 2, 0 :: real]]"
  have rne: "?rot \<noteq> []"
    by simp
  have rlen: "length [1 :: int] = length ?rot"
    by simp
  have rshape: "list_all (\<lambda>b. length b = 4) ?rot \<or> list_all (\<lambda>b. length b = 5) ?rot"
    by simp
  have rsmall: "int (length ?rot) < (case cfg_split_thr ?cfg of None \<Rightarrow> 10000 | Some v \<Rightarrow> v)"
    by simp
  have r5: "list_all (\<lambda>b. length b = 5) ?rot"
    by simp
  have rops: "cfg_type ?cfg \<in> {None, Some op_nms, Some op_soft_nms, Some nms_rotated}"
    by simp
  from batched_nms_offset_trick [OF agn rne rlen rshape rsmall, of "[9 / 10]"] r5 rops
  have rot: "isl (batched_nms ?rot [9 / 10] [1] (Some ?cfg) False)"
    by blast
  from ne len shifted plain run rot show ?thesis
    by (intro conjI)
qed

text \<open>
  C5 as worded does not hold for rotated boxes: nms and soft_nms fail their shape
  assertion on the shifted rotated boxes and \<open>nms_rotated\<close> raises, so no box is kept or
  returned.
\<close>

theorem batched_nms_rotated_rejected:
  "batched_nms [[5, 5, 2, 2, 0]] [9 / 10] [1]
     (Some \<lparr>cfg_class_agnostic = None, cfg_type = None, cfg_split_thr = None,
            cfg_kwargs = \<lparr>kw_iou_threshold = Some (1 / 2), kw_offset = None,
              kw_score_threshold = None, kw_max_num = None, kw_sigma = None,
              kw_min_score = None, kw_method = None\<rparr>\<rparr>) False
     = Inl AssertionError
   \<and> batched_nms [[5, 5, 2, 2, 0]] [9 / 10] [1]
     (Some \<lparr>cfg_class_agnostic = None, cfg_type = Some op_soft_nms, cfg_split_thr = None,
            cfg_kwargs = \<lparr>kw_iou_threshold = Some (1 / 2), kw_offset = None,
              kw_score_threshold = None, kw_max_num = None, kw_sigma = None,
              kw_min_score = None, kw_method = None\<rparr>\<rparr>) False
     = Inl AssertionError
   \<and> batched_nms [[5, 5, 2, 2, 0]] [9 / 10] [1]
     (Some \<lparr>cfg_class_agnostic = None, cfg_type = Some nms_rotated, cfg_split_thr = None,
            cfg_kwargs = \<lparr>kw_iou_threshold = Some (1 / 2), kw_offset = None,
              kw_score_threshold = None, kw_max_num = None, kw_sigma = None,
              kw_min_score = None, kw_method = None\<rparr>\<rparr>) False
     = Inl NotImplementedError"
  by (simp add: batched_nms_def boxes_for_nms_of_def tensor_max_def add_offsets_def
        batched_nms_single_def op_nms_def op_soft_nms_def nms_rotated_def nms_def soft_nms_def
        Let_def
      del: soft_loop.simps)

text \<open>
  C6: for a non-empty input of rows of five numbers, nms_match returns groups in which
  every index of the input occurs exactly once, and the first index of each group has
  the highest score of the group.
\<close>

theorem nms_match_partition:
  assumes "dets \<noteq> []" and "list_all (\<lambda>d. length d = 5) dets"
  shows "\<exists>groups. nms_match dets iou_threshold = Inr groups
           \<and> mset (concat groups) = mset [0..<length dets]
           \<and> (\<forall>g \<in> set groups. g \<noteq> [] \<and> (\<forall>k \<in> set g. dets ! k ! 4 \<le> dets ! hd g ! 4))"
proof -
  let ?scores = "map (\<lambda>d. d ! 4) dets"
  let ?sp = "\<lambda>i j. iou (dets ! i) (dets ! j) 0 > iou_threshold"
  let ?groups = "match_scan ?sp (argsort_desc ?scores) []"
  from assms have run: "nms_match dets iou_threshold = Inr ?groups"
    by (simp add: nms_match_def nms_match_pytorch_def)
  have "mset (concat ?groups) = mset (filter (\<lambda>j. j \<notin> set []) (argsort_desc ?scores))"
    by (rule match_scan_mset)
  then have part: "mset (concat ?groups) = mset [0..<length dets]"
    by (simp add: argsort_desc_mset)
  have top: "g \<noteq> [] \<and> (\<forall>k \<in> set g. dets ! k ! 4 \<le> dets ! hd g ! 4)" if g: "g \<in> set ?groups" for g
  proof -
    from argsort_desc_sorted [of ?scores] g
    have h: "g \<noteq> [] \<and> (\<forall>k \<in> set g. - (?scores ! hd g) \<le> - (?scores ! k))"
      by (rule match_scan_head)
    have "set g \<subseteq> set (concat ?groups)"
      using g by auto
    also have "\<dots> = set_mset (mset [0..<length dets])"
      unfolding part [symmetric] by simp
    finally have rng: "\<forall>k \<in> set g. k < length dets"
      by auto
    from h have "hd g \<in> set g"
      by simp
    with rng have "hd g < length dets"
      by blast
    with h rng show ?thesis
      by auto
  qed
  from run part top show ?thesis
    by blast
qed

theorem nms_match_partition_witness:
  "[[0, 0, 10, 10, 9 / 10], [0, 0, 10, 10, 4 / 5], [20, 20, 30, 30, 7 / 10 :: real]] \<noteq> []
   \<and> list_all (\<lambda>d. length d = 5)
        [[0, 0, 10, 10, 9 / 10], [0, 0, 10, 10, 4 / 5], [20, 20, 30, 30, 7 / 10 :: real]]
   \<and> nms_match [[0, 0, 10, 10, 9 / 10], [0, 0, 10, 10, 4 / 5], [20, 20, 30, 30, 7 / 10]] (1 / 2)
       = Inr [[0, 1], [2]]
   \<and> mset (concat [[0, 1], [2 :: nat]]) = mset [0, 1, 2]"
proof -
  let ?dets = "[[0, 0, 10, 10, 9 / 10], [0, 0, 10, 10, 4 / 5], [20, 20, 30, 30, 7 / 10 :: real]]"
  have ne: "?dets \<noteq> []"
    by simp
  have shape: "list_all (\<lambda>d. length d = 5) ?dets"
    by simp
  have run: "nms_match ?dets (1 / 2) = Inr [[0, 1], [2]]"
    by code_simp
  from nms_match_partition [OF ne shape, of "1 / 2"] run
  have "mset (concat [[0, 1], [2 :: nat]]) = mset [0..<length ?dets]"
    by auto
  also have "[0..<length ?dets] = [0, 1, 2]"
    by (simp add: upt_rec)
  finally have "mset (concat [[0, 1], [2 :: nat]]) = mset [0, 1, 2]" .
  with ne shape run show ?thesis
    by (intro conjI)
qed

text \<open>
  C7: an input without boxes is not an error, each operation returns empty outputs. The
  property is not met by batched_nms with a config that is not class-agnostic: the
  maximal coordinate is taken over a tensor without entries, which raises, before any
  op is called. The same input returns empty outputs without a config and in
  class-agnostic mode, and nms_match and nms_quadri check for it.
\<close>

theorem batched_nms_empty_per_class_raises:
  "batched_nms [] [] []
     (Some \<lparr>cfg_class_agnostic = None, cfg_type = None, cfg_split_thr = None,
            cfg_kwargs = \<lparr>kw_iou_threshold = Some (1 / 2), kw_offset = None,
              kw_score_threshold = None, kw_max_num = None, kw_sigma = None,
              kw_min_score = None, kw_method = None\<rparr>\<rparr>) False
   = Inl RuntimeError"
  by (simp add: batched_nms_def boxes_for_nms_of_def tensor_max_def)

text \<open>
  C8: with a positive score threshold, nms runs the suppression on the detections whose
  score is above the threshold only, and the kept indices are positions in the
  unfiltered input: each is in range and has a score above the threshold, and each
  returned row is the input box at that position followed by its score.
\<close>

theorem nms_score_threshold:
  assumes "score_threshold > 0"
    and "nms boxes scores iou_threshold offset score_threshold max_num = Inr (dets, inds)"
  shows "inds = map (\<lambda>k. valid_inds scores score_threshold ! k)
                  (if max_num > 0
                   then take (nat max_num)
                          (nms_pytorch (map (\<lambda>i. boxes ! i) (valid_inds scores score_threshold))
                             (map (\<lambda>i. scores ! i) (valid_inds scores score_threshold)) iou_threshold)
                   else nms_pytorch (map (\<lambda>i. boxes ! i) (valid_inds scores score_threshold))
                          (map (\<lambda>i. scores ! i) (valid_inds scores score_threshold)) iou_threshold)
         \<and> (\<forall>k \<in> set inds. k < length boxes \<and> scores ! k > score_threshold)
         \<and> dets = map (\<lambda>k. boxes ! k @ [scores ! k]) inds"
proof -
  from assms(2) have len: "length boxes = length scores"
    and inds: "inds = NMSop_forward boxes scores iou_threshold offset score_threshold max_num"
    and dets: "dets = map (\<lambda>k. boxes ! k @ [scores ! k]) inds"
    by (auto simp: nms_def Let_def split: if_splits)
  have "k < length boxes \<and> scores ! k > score_threshold" if "k \<in> set inds" for k
    using that NMSop_forward_range [of boxes scores iou_threshold offset score_threshold max_num]
      NMSop_forward_above_threshold [OF assms(1), of k boxes scores iou_threshold offset max_num]
    unfolding inds len by auto
  then show ?thesis
    using dets inds NMSop_forward_filtered [OF assms(1), of boxes scores iou_threshold offset max_num]
    by simp
qed

theorem nms_score_threshold_witness:
  "(0::real) < 1 / 2
   \<and> nms [[0, 0, 10, 10], [0, 0, 10, 10], [20, 20, 30, 30]] [1 / 5, 9 / 10, 4 / 5] (1 / 2) 0 (1 / 2) (- 1)
       = Inr ([[0, 0, 10, 10, 9 / 10], [20, 20, 30, 30, 4 / 5]], [1, 2])
   \<and> [1 / 5, 9 / 10, 4 / 5 :: real] ! 1 > 1 / 2
   \<and> [1 / 5, 9 / 10, 4 / 5 :: real] ! 2 > 1 / 2"
proof -
  have pos: "(0::real) < 1 / 2"
    by simp
  have run: "nms [[0, 0, 10, 10], [0, 0, 10, 10], [20, 20, 30, 30]] [1 / 5, 9 / 10, 4 / 5]
               (1 / 2) 0 (1 / 2) (- 1)
             = Inr ([[0, 0, 10, 10, 9 / 10], [20, 20, 30, 30, 4 / 5]], [1, 2])"
    by code_simp
  have "\<forall>k \<in> set [1, 2 :: nat].
         k < length [[0, 0, 10, 10], [0, 0, 10, 10], [20, 20, 30, 30 :: real]]
         \<and> [1 / 5, 9 / 10, 4 / 5 :: real] ! k > 1 / 2"
    using nms_score_threshold [OF pos run] by (elim conjE)
  then have "[1 / 5, 9 / 10, 4 / 5 :: real] ! 1 > 1 / 2"
    and "[1 / 5, 9 / 10, 4 / 5 :: real] ! 2 > 1 / 2"
    by (simp_all del: nth_Cons_numeral)
  with pos run show ?thesis
    by (intro conjI)
qed

text \<open>
  C1: no two kept boxes of one class have an IoU, taken with the caller's offset, above
  the threshold. The property is not met at offset 1: \<open>NMSop.forward\<close> receives the offset
  and does not pass it on, so the kernel compares the IoU without the +1 term. For the two
  boxes below that IoU is 0 and both are kept, while their IoU at offset 1 is 1/7, above
  the threshold 1/10.
\<close>

theorem nms_offset_one_keeps_overlap:
  "nms [[0, 0, 1, 1], [1, 1, 2, 2]] [9 / 10, 4 / 5] (1 / 10) 1 0 (- 1)
     = Inr ([[0, 0, 1, 1, 9 / 10], [1, 1, 2, 2, 4 / 5]], [0, 1])
   \<and> iou [0, 0, 1, 1] [1, 1, 2, 2] 1 = 1 / 7
   \<and> iou [0, 0, 1, 1] [1, 1, 2, 2] 0 = 0"
  by code_simp

text \<open>
  C2: the branch below the split threshold, which shifts every box by its class offset,
  keeps the same indices as NMS run class by class. The property is not met when a box has
  negative coordinates: the box of class 1 below is shifted onto the box of class 0 and
  is suppressed by it, while the branch at the split threshold and NMS on each class alone
  keep both boxes.
\<close>

theorem batched_nms_shift_merges_classes:
  "batched_nms [[0, 0, 10, 10], [- 11, - 11, - 1, - 1]] [9 / 10, 4 / 5] [0, 1]
     (Some \<lparr>cfg_class_agnostic = None, cfg_type = None, cfg_split_thr = None,
            cfg_kwargs = \<lparr>kw_iou_threshold = Some (1 / 2), kw_offset = None,
              kw_score_threshold = None, kw_max_num = None, kw_sigma = None,
              kw_min_score = None, kw_method = None\<rparr>\<rparr>) False
     = Inr ([[0, 0, 10, 10, 9 / 10]], [0])
   \<and> batched_nms [[0, 0, 10, 10], [- 11, - 11, - 1, - 1]] [9 / 10, 4 / 5] [0, 1]
     (Some \<lparr>cfg_class_agnostic = None, cfg_type = None, cfg_split_thr = Some 2,
            cfg_kwargs = \<lparr>kw_iou_threshold = Some (1 / 2), kw_offset = None,
              kw_score_threshold = None, kw_max_num = None, kw_sigma = None,
              kw_min_score = None, kw_method = None\<rparr>\<rparr>) False
     = Inr ([[0, 0, 10, 10, 9 / 10], [- 11, - 11, - 1, - 1, 4 / 5]], [0, 1])
   \<and> nms [[0, 0, 10, 10]] [9 / 10] (1 / 2) 0 0 (- 1) = Inr ([[0, 0, 10, 10, 9 / 10]], [0])
   \<and> nms [[- 11, - 11, - 1, - 1]] [4 / 5] (1 / 2) 0 0 (- 1)
       = Inr ([[- 11, - 11, - 1, - 1, 4 / 5]], [0])"
  by code_simp

text \<open>
  C9: nms applied to its own output, the kept boxes with their kept scores and the same
  arguments, keeps every detection: it returns the same rows, at the positions
  0, ..., K - 1.
\<close>

theorem nms_idempotent:
  assumes run: "nms boxes scores iou_threshold offset score_threshold max_num = Inr (dets, inds)"
  shows "nms (map butlast dets) (map last dets) iou_threshold offset score_threshold max_num
           = Inr (dets, [0..<length dets])"
proof -
  let ?inds = "NMSop_forward boxes scores iou_threshold offset score_threshold max_num"
  from run have shape: "list_all (\<lambda>b. length b = 4) boxes"
    and len: "length boxes = length scores"
    and off: "offset \<in> {0, 1}"
    and inds: "inds = ?inds"
    and dets: "dets = map (\<lambda>k. boxes ! k @ [scores ! k]) inds"
    by (auto simp: nms_def Let_def split: if_splits)
  let ?B = "map (\<lambda>k. boxes ! k) inds"
  let ?S = "map (\<lambda>k. scores ! k) inds"
  have B: "map butlast dets = ?B" and S: "map last dets = ?S"
    unfolding dets by simp_all
  have rng: "\<forall>k \<in> set inds. k < length scores"
    using NMSop_forward_range [where scores = scores and bboxes = boxes and t = iou_threshold
      and offset = offset and score_threshold = score_threshold and max_num = max_num]
    unfolding inds by auto
  have shapeB: "list_all (\<lambda>b. length b = 4) ?B"
    using shape rng len by (simp add: list_all_iff)
  have lenBS: "length ?B = length ?S"
    by simp
  have desc: "sorted_wrt (\<lambda>a b. b \<le> a) ?S"
    using NMSop_forward_sorted [where scores = scores and bboxes = boxes and t = iou_threshold
      and offset = offset and score_threshold = score_threshold and max_num = max_num]
    unfolding inds by (simp only: sorted_wrt_map)
  have nov: "sorted_wrt (\<lambda>a b. \<not> iou a b 0 > iou_threshold) ?B"
    using NMSop_forward_no_overlap [where scores = scores and bboxes = boxes and t = iou_threshold
      and offset = offset and score_threshold = score_threshold and max_num = max_num]
    unfolding inds by (simp only: sorted_wrt_map)
  have cap: "max_num > 0 \<longrightarrow> length ?S \<le> nat max_num"
    using NMSop_forward_length [where scores = scores and bboxes = boxes and t = iou_threshold
      and offset = offset and score_threshold = score_threshold and max_num = max_num]
    unfolding inds by simp
  have above: "score_threshold > 0 \<longrightarrow> (\<forall>s \<in> set ?S. s > score_threshold)"
    using NMSop_forward_above_threshold [where scores = scores and bboxes = boxes and t = iou_threshold
      and offset = offset and score_threshold = score_threshold and max_num = max_num]
    unfolding inds by auto
  have fixed: "NMSop_forward ?B ?S iou_threshold offset score_threshold max_num = [0..<length ?S]"
    using lenBS desc nov cap above by (rule NMSop_forward_fixed)
  have rows: "map (\<lambda>k. ?B ! k @ [?S ! k]) [0..<length inds] = dets"
    unfolding dets by (rule nth_equalityI) simp_all
  have "nms ?B ?S iou_threshold offset score_threshold max_num
          = Inr (map (\<lambda>k. ?B ! k @ [?S ! k]) [0..<length ?S], [0..<length ?S])"
    using shapeB off fixed by (simp add: nms_def Let_def)
  then show ?thesis
    unfolding B S using rows by (simp add: dets)
qed


theorem nms_idempotent_witness:
  "nms [[0, 0, 10, 10], [0, 0, 10, 10], [20, 20, 30, 30]] [9 / 10, 4 / 5, 7 / 10] (1 / 2) 0 0 (- 1)
     = Inr ([[0, 0, 10, 10, 9 / 10], [20, 20, 30, 30, 7 / 10]], [0, 2])
   \<and> nms (map butlast [[0, 0, 10, 10, 9 / 10], [20, 20, 30, 30, 7 / 10]])
         (map last [[0, 0, 10, 10, 9 / 10], [20, 20, 30, 30, 7 / 10]]) (1 / 2) 0 0 (- 1)
       = Inr ([[0, 0, 10, 10, 9 / 10], [20, 20, 30, 30, 7 / 10]],
              [0..<length [[0, 0, 10, 10, 9 / 10], [20, 20, 30, 30, 7 / 10 :: real]]])"
proof -
  have run: "nms [[0, 0, 10, 10], [0, 0, 10, 10], [20, 20, 30, 30]] [9 / 10, 4 / 5, 7 / 10]
               (1 / 2) 0 0 (- 1)
             = Inr ([[0, 0, 10, 10, 9 / 10], [20, 20, 30, 30, 7 / 10]], [0, 2])"
    by code_simp
  from run nms_idempotent [OF run] show ?thesis
    by (rule conjI)
qed

text \<open>
  C10: soft_nms returns the same detections and indices for offset 0 as for offset 1:
  the offset is checked to be 0 or 1 and is not handed to the kernel.
\<close>

theorem soft_nms_offset_independent:
  "soft_nms boxes scores iou_threshold sigma min_score method 0
     = soft_nms boxes scores iou_threshold sigma min_score method 1"
  by (simp add: soft_nms_def SoftNMSop_forward_def split: option.splits)

end
